theory Spec2Isabelle
  imports Complex_Main "HOL-Library.Sublist"
begin

section \<open>The GPU coordinator (gpu-coordinator.py)\<close>

text \<open>
  The coordinator polls the process table and pauses a systemd service (vLLM) while a
  GPU-intensive job runs. The embedding follows the Python class \<^verbatim>\<open>GPUCoordinator\<close>
  method by method. Everything the script asks of its surroundings (the process table,
  the wall clock, \<^verbatim>\<open>systemctl\<close>, signals) is an input of the model; every external
  command and log line the script issues is recorded in a trace, together with the
  coordinator's fields at the moment it is issued.
\<close>

subsection \<open>Strings\<close>

text \<open>
  Python's \<^verbatim>\<open>pattern in cmdline\<close> on strings is the substring test. Command lines are
  modelled as byte strings; \<^verbatim>\<open>str.lower()\<close> is modelled on the ASCII letters, every
  other byte is kept.
\<close>

fun py_in :: "string \<Rightarrow> string \<Rightarrow> bool" where
  "py_in p [] = (p = [])"
| "py_in p (c # cs) = (prefix p (c # cs) \<or> py_in p cs)"

definition lower_char :: "char \<Rightarrow> char" where
  "lower_char c =
     (case map_of (zip ''ABCDEFGHIJKLMNOPQRSTUVWXYZ'' ''abcdefghijklmnopqrstuvwxyz'') c of
        Some l \<Rightarrow> l
      | None \<Rightarrow> c)"

definition lower :: "string \<Rightarrow> string" where
  "lower s = map lower_char s"

text \<open>\<^verbatim>\<open>' '.join(parts)\<close>\<close>

fun join_space :: "string list \<Rightarrow> string" where
  "join_space [] = []"
| "join_space [a] = a"
| "join_space (a # b # rest) = a @ '' '' @ join_space (b # rest)"

subsection \<open>Exceptions, processes, the coordinator's fields\<close>

text \<open>
  The exceptions the script names, and one constructor for every other exception
  (\<^verbatim>\<open>FileNotFoundError\<close> from \<^verbatim>\<open>subprocess.run\<close>, \<^verbatim>\<open>TypeError\<close>, ...).
  \<^verbatim>\<open>KeyboardInterrupt\<close> is the only one here that is not a subclass of \<^verbatim>\<open>Exception\<close>.
\<close>

datatype exn = NoSuchProcess | AccessDenied | CalledProcessError | KeyboardInterrupt
  | OtherException

text \<open>
  A \<^verbatim>\<open>psutil.Process\<close> as the script uses it: \<^verbatim>\<open>proc.name()\<close> and \<^verbatim>\<open>proc.cmdline()\<close>
  either return or raise.
\<close>

record proc =
  pid :: nat
  name :: "exn + string"
  cmdline :: "exn + string list"

text \<open>The fields set by \<^verbatim>\<open>__init__\<close> (the logger and its level are left out).\<close>

record coordinator =
  vllm_service :: string
  check_interval :: real
  grace_period :: real
  gpu_intensive_processes :: "string set"
  vllm_was_running :: bool
  gpu_process_start_time :: "real option"
  running :: bool

definition GPUCoordinator_init :: coordinator where
  "GPUCoordinator_init =
     \<lparr> vllm_service = ''vllm.service'',
       check_interval = 3,
       grace_period = 8,
       gpu_intensive_processes =
         {''rdb'', ''python -m rdb'', ''embedding'', ''indexing'', ''trainer'', ''finetune''},
       vllm_was_running = False,
       gpu_process_start_time = None,
       running = True \<rparr>"

subsection \<open>The process classifier\<close>

definition gpu_keywords :: "string list" where
  "gpu_keywords = [''embed'', ''index'', ''build'', ''train'', ''finetune'']"

text \<open>
  \<^verbatim>\<open>_is_process_gpu_intensive\<close>: the body of the \<^verbatim>\<open>try\<close> on the joined command line,
  then the method with its \<^verbatim>\<open>except (NoSuchProcess, AccessDenied)\<close>.
\<close>

definition cmdline_gpu_intensive :: "coordinator \<Rightarrow> string \<Rightarrow> bool" where
  "cmdline_gpu_intensive self c =
     (if \<exists>pattern \<in> gpu_intensive_processes self. py_in pattern c then True
      else if \<exists>keyword \<in> set gpu_keywords. py_in keyword (lower c) then True
      else False)"

definition is_process_gpu_intensive :: "coordinator \<Rightarrow> proc \<Rightarrow> exn + bool" where
  "is_process_gpu_intensive self p =
     (case cmdline p of
        Inr argv \<Rightarrow> Inr (cmdline_gpu_intensive self (join_space argv))
      | Inl e \<Rightarrow> if e = NoSuchProcess \<or> e = AccessDenied then Inr False else Inl e)"

text \<open>
  \<^verbatim>\<open>_get_gpu_intensive_processes\<close>: the loop over \<^verbatim>\<open>psutil.process_iter\<close>. The result
  set is kept as the list of its members in iteration order.
\<close>

fun get_gpu_intensive_processes :: "coordinator \<Rightarrow> proc list \<Rightarrow> exn + proc list" where
  "get_gpu_intensive_processes self [] = Inr []"
| "get_gpu_intensive_processes self (p # ps) =
     (case is_process_gpu_intensive self p of
        Inl e \<Rightarrow> if e = NoSuchProcess \<or> e = AccessDenied
                 then get_gpu_intensive_processes self ps else Inl e
      | Inr b \<Rightarrow>
          (case get_gpu_intensive_processes self ps of
             Inl e \<Rightarrow> Inl e
           | Inr gpu_processes \<Rightarrow> Inr (if b then p # gpu_processes else gpu_processes)))"

subsection \<open>Effects: the trace, exceptions, sequencing\<close>

text \<open>
  What the script does to the outside is an \<open>event\<close>: a log line, a \<^verbatim>\<open>subprocess.run\<close>
  of one of the three \<^verbatim>\<open>systemctl\<close> commands together with what that call produced
  (an exception, or the command's return code), or a \<^verbatim>\<open>time.sleep\<close>. A trace entry pairs
  the event with the coordinator's fields at the moment of the event, so that a property
  such as "the stop command is issued while \<open>vllm_was_running\<close> is true" is a property of
  the trace.
\<close>

datatype command = IsActive | Stop | Start

datatype event =
    Info string
  | Error string
  | Run command "exn + int"
  | Sleep real

type_synonym trace = "(coordinator \<times> event) list"

text \<open>
  A method body takes the coordinator and gives the updated coordinator, the events it
  issued, and either the exception it raised or its return value.
\<close>

type_synonym 'a action = "coordinator \<Rightarrow> coordinator \<times> trace \<times> (exn + 'a)"

definition ret :: "'a \<Rightarrow> 'a action" where
  "ret a = (\<lambda>self. (self, [], Inr a))"

definition raise :: "exn \<Rightarrow> 'a action" where
  "raise e = (\<lambda>self. (self, [], Inl e))"

definition emit :: "event \<Rightarrow> unit action" where
  "emit ev = (\<lambda>self. (self, [(self, ev)], Inr ()))"

text \<open>\<^verbatim>\<open>self.logger.info(f"...")\<close> and \<^verbatim>\<open>self.logger.error(f"...")\<close>; the text may read fields.\<close>

definition logger_info :: "(coordinator \<Rightarrow> string) \<Rightarrow> unit action" where
  "logger_info msg = (\<lambda>self. emit (Info (msg self)) self)"

definition logger_error :: "(coordinator \<Rightarrow> string) \<Rightarrow> unit action" where
  "logger_error msg = (\<lambda>self. emit (Error (msg self)) self)"

definition assign :: "(coordinator \<Rightarrow> coordinator) \<Rightarrow> unit action" where
  "assign f = (\<lambda>self. (f self, [], Inr ()))"

text \<open>\<open>seq m f\<close>: statement \<open>m\<close>, then \<open>f\<close> on its value; an exception of \<open>m\<close> skips \<open>f\<close>.\<close>

definition seq :: "'a action \<Rightarrow> ('a \<Rightarrow> 'b action) \<Rightarrow> 'b action" where
  "seq m f = (\<lambda>self.
     case m self of
       (self1, tr1, Inl e) \<Rightarrow> (self1, tr1, Inl e)
     | (self1, tr1, Inr a) \<Rightarrow>
         (case f a self1 of (self2, tr2, r) \<Rightarrow> (self2, tr1 @ tr2, r)))"

text \<open>\<^verbatim>\<open>try: m except <caught> as e: h e\<close>\<close>

definition try_except :: "'a action \<Rightarrow> (exn \<Rightarrow> bool) \<Rightarrow> (exn \<Rightarrow> 'a action) \<Rightarrow> 'a action" where
  "try_except m caught h = (\<lambda>self.
     case m self of
       (self1, tr1, Inl e) \<Rightarrow>
         if caught e then (case h e self1 of (self2, tr2, r) \<Rightarrow> (self2, tr1 @ tr2, r))
         else (self1, tr1, Inl e)
     | (self1, tr1, Inr a) \<Rightarrow> (self1, tr1, Inr a))"

text \<open>
  \<^verbatim>\<open>subprocess.run(cmd, check=...)\<close>: the call either raises (the program is missing, the
  call is interrupted) or gives the return code; with \<^verbatim>\<open>check=True\<close> a non-zero return
  code raises \<^verbatim>\<open>CalledProcessError\<close>. The outcome \<open>r\<close> is the environment's.
\<close>

definition subprocess_run :: "command \<Rightarrow> bool \<Rightarrow> exn + int \<Rightarrow> int action" where
  "subprocess_run cmd check r =
     seq (emit (Run cmd r)) (\<lambda>_.
       case r of
         Inl e \<Rightarrow> raise e
       | Inr returncode \<Rightarrow>
           if check \<and> returncode \<noteq> 0 then raise CalledProcessError else ret returncode)"

text \<open>\<^verbatim>\<open>time.sleep(d)\<close>; \<open>r\<close> is the exception that interrupts it, if any.\<close>

definition time_sleep :: "real \<Rightarrow> exn option \<Rightarrow> unit action" where
  "time_sleep d r =
     seq (emit (Sleep d)) (\<lambda>_. case r of None \<Rightarrow> ret () | Some e \<Rightarrow> raise e)"

subsection \<open>The service controller\<close>

text \<open>
  \<^verbatim>\<open>_is_vllm_running\<close>: \<^verbatim>\<open>except Exception\<close> catches everything but
  \<^verbatim>\<open>KeyboardInterrupt\<close>.
\<close>

definition is_vllm_running :: "exn + int \<Rightarrow> bool action" where
  "is_vllm_running r =
     try_except
       (seq (subprocess_run IsActive False r) (\<lambda>returncode. ret (returncode = 0)))
       (\<lambda>e. e \<noteq> KeyboardInterrupt)
       (\<lambda>e. ret False)"

text \<open>
  \<^verbatim>\<open>_stop_vllm\<close>; \<open>q\<close> is the outcome of the \<^verbatim>\<open>is-active\<close> query, \<open>r\<close> of the stop command.
\<close>

definition stop_vllm :: "exn + int \<Rightarrow> exn + int \<Rightarrow> unit action" where
  "stop_vllm q r =
     seq (is_vllm_running q) (\<lambda>active.
       if active then
         seq (logger_info (\<lambda>self. ''Stopping '' @ vllm_service self @
                '' for GPU-intensive process'')) (\<lambda>_.
           try_except
             (seq (subprocess_run Stop True r) (\<lambda>_.
              seq (assign (\<lambda>self. self\<lparr>vllm_was_running := True\<rparr>)) (\<lambda>_.
              time_sleep 3 None)))
             (\<lambda>e. e = CalledProcessError)
             (\<lambda>e. logger_error (\<lambda>self. ''Failed to stop '' @ vllm_service self)))
       else ret ())"

text \<open>\<^verbatim>\<open>_start_vllm\<close>; \<open>r\<close> is the outcome of the start command.\<close>

definition start_vllm :: "exn + int \<Rightarrow> unit action" where
  "start_vllm r = (\<lambda>self.
     if vllm_was_running self then
       seq (logger_info (\<lambda>self. ''Restarting '' @ vllm_service self)) (\<lambda>_.
         try_except
           (seq (subprocess_run Start True r) (\<lambda>_.
            assign (\<lambda>self. self\<lparr>vllm_was_running := False\<rparr>)))
           (\<lambda>e. e = CalledProcessError)
           (\<lambda>e. logger_error (\<lambda>self. ''Failed to start '' @ vllm_service self))) self
     else ret () self)"

text \<open>\<^verbatim>\<open>_handle_signal\<close>\<close>

definition handle_signal :: "unit action" where
  "handle_signal =
     seq (logger_info (\<lambda>_. ''Received signal, shutting down...'')) (\<lambda>_.
       assign (\<lambda>self. self\<lparr>running := False\<rparr>))"

subsection \<open>The monitoring loop\<close>

text \<open>
  What the surroundings give to one pass of the \<^verbatim>\<open>while\<close> loop of \<^verbatim>\<open>run\<close>, in the order
  the pass asks for it. \<open>time_classified\<close> is the wall clock at the moment the process
  table is read; the script does not read it, it only serves to speak about how long a
  contention lasted. The clock values are real numbers (the rounding of floats is not
  modelled). \<open>signal_received\<close> says that SIGTERM or SIGINT arrives during the pass: the
  handler only clears \<open>running\<close>, which is read again at the head of the loop.
\<close>

record tick_env =
  processes :: "proc list"
  time_classified :: real
  time_detected :: real
  time_checked :: real
  is_active_in_run :: "exn + int"
  is_active_in_stop :: "exn + int"
  stop_result :: "exn + int"
  start_result :: "exn + int"
  poll_sleep :: "exn option"
  signal_received :: bool

text \<open>\<^verbatim>\<open>[proc.name() for proc in gpu_processes]\<close>\<close>

fun proc_names :: "proc list \<Rightarrow> exn + string list" where
  "proc_names [] = Inr []"
| "proc_names (p # ps) =
     (case name p of
        Inl e \<Rightarrow> Inl e
      | Inr n \<Rightarrow> (case proc_names ps of Inl e \<Rightarrow> Inl e | Inr ns \<Rightarrow> Inr (n # ns)))"

text \<open>The branch \<^verbatim>\<open>if gpu_processes:\<close> of the loop body.\<close>

definition run_gpu_detected :: "tick_env \<Rightarrow> proc list \<Rightarrow> unit action" where
  "run_gpu_detected env gpu_processes =
     seq (\<lambda>self.
            if gpu_process_start_time self = None then
              seq (assign (\<lambda>self. self\<lparr>gpu_process_start_time := Some (time_detected env)\<rparr>))
                (\<lambda>_. case proc_names gpu_processes of
                        Inl e \<Rightarrow> raise e
                      | Inr ns \<Rightarrow>
                          logger_info (\<lambda>_. ''GPU-intensive processes detected: '' @
                            concat ns)) self
            else ret () self)
       (\<lambda>_ self.
          case gpu_process_start_time self of
            None \<Rightarrow> raise OtherException self
          | Some started \<Rightarrow>
              let elapsed = time_checked env - started in
              if elapsed \<ge> grace_period self then
                seq (is_vllm_running (is_active_in_run env)) (\<lambda>active.
                  if active then stop_vllm (is_active_in_stop env) (stop_result env)
                  else ret ()) self
              else ret () self)"

text \<open>The \<^verbatim>\<open>else\<close> branch: no GPU-intensive process.\<close>

definition run_gpu_absent :: "tick_env \<Rightarrow> unit action" where
  "run_gpu_absent env = (\<lambda>self.
     if gpu_process_start_time self \<noteq> None then
       seq (logger_info (\<lambda>_. ''GPU-intensive processes finished'')) (\<lambda>_.
       seq (assign (\<lambda>self. self\<lparr>gpu_process_start_time := None\<rparr>)) (\<lambda>_ self.
         if vllm_was_running self then
           seq (time_sleep 2 None) (\<lambda>_. start_vllm (start_result env)) self
         else ret () self)) self
     else ret () self)"

text \<open>One pass of the loop body (lines 134 to 160 of the script).\<close>

definition run_tick :: "tick_env \<Rightarrow> unit action" where
  "run_tick env = (\<lambda>self.
     case get_gpu_intensive_processes self (processes env) of
       Inl e \<Rightarrow> raise e self
     | Inr gpu_processes \<Rightarrow>
         seq (if gpu_processes \<noteq> [] then run_gpu_detected env gpu_processes
              else run_gpu_absent env)
           (\<lambda>_ self. time_sleep (check_interval self) (poll_sleep env) self) self)"

text \<open>
  \<^verbatim>\<open>while self.running: ...\<close> over the passes the surroundings provide. The loop ends
  when \<open>running\<close> is false at its head, or when a pass raises. When the list of passes is
  used up and \<open>running\<close> is still true, the loop has not ended: \<open>LoopRunning\<close>.
\<close>

datatype loop_result = LoopExited | LoopRaised exn | LoopRunning

fun run_loop :: "tick_env list \<Rightarrow> coordinator \<Rightarrow> coordinator \<times> trace \<times> loop_result" where
  "run_loop [] self = (self, [], if running self then LoopRunning else LoopExited)"
| "run_loop (env # envs) self =
     (if running self then
        (case seq (run_tick env)
                (\<lambda>_. if signal_received env then handle_signal else ret ()) self of
           (self1, tr1, Inl e) \<Rightarrow> (self1, tr1, LoopRaised e)
         | (self1, tr1, Inr _) \<Rightarrow>
             (case run_loop envs self1 of (self2, tr2, r) \<Rightarrow> (self2, tr1 @ tr2, r)))
      else (self, [], LoopExited))"

text \<open>The \<^verbatim>\<open>finally\<close> block of \<^verbatim>\<open>run\<close>; \<open>r\<close> is the outcome of its start command.\<close>

definition run_cleanup :: "exn + int \<Rightarrow> unit action" where
  "run_cleanup r =
     seq (\<lambda>self.
            if vllm_was_running self then
              seq (logger_info (\<lambda>_. ''Cleanup: restarting vLLM service'')) (\<lambda>_.
                start_vllm r) self
            else ret () self)
       (\<lambda>_. logger_info (\<lambda>_. ''GPU Coordinator stopped''))"

text \<open>
  \<^verbatim>\<open>run\<close>: the three start-up log lines (the second without its list of patterns), the
  loop inside \<^verbatim>\<open>try ... except KeyboardInterrupt ... finally\<close>. \<open>Returned\<close>: \<^verbatim>\<open>run\<close> returns;
  \<open>Propagated e\<close>: the exception \<open>e\<close> leaves \<^verbatim>\<open>run\<close> (after the \<^verbatim>\<open>finally\<close> block ran);
  \<open>StillRunning\<close>: the loop has not ended within the passes given.
\<close>

datatype outcome = Returned | Propagated exn | StillRunning

definition run_startup :: "unit action" where
  "run_startup =
     seq (logger_info (\<lambda>_. ''GPU Coordinator started'')) (\<lambda>_.
     seq (logger_info (\<lambda>self. ''Monitoring for GPU processes'')) (\<lambda>_.
     logger_info (\<lambda>self. ''Managing service: '' @ vllm_service self)))"

definition run :: "tick_env list \<Rightarrow> exn + int \<Rightarrow> coordinator \<Rightarrow> coordinator \<times> trace \<times> outcome" where
  "run envs cleanup_start self =
     (case run_startup self of (self0, tr0, _) \<Rightarrow>
       (case run_loop envs self0 of
          (self1, tr1, LoopRunning) \<Rightarrow> (self1, tr0 @ tr1, StillRunning)
        | (self1, tr1, LoopExited) \<Rightarrow>
            (case run_cleanup cleanup_start self1 of
               (self2, tr2, Inl e) \<Rightarrow> (self2, tr0 @ tr1 @ tr2, Propagated e)
             | (self2, tr2, Inr _) \<Rightarrow> (self2, tr0 @ tr1 @ tr2, Returned))
        | (self1, tr1, LoopRaised e) \<Rightarrow>
            (if e = KeyboardInterrupt then
               (case seq (logger_info (\<lambda>_. ''Interrupted by user'')) (\<lambda>_.
                       run_cleanup cleanup_start) self1 of
                  (self2, tr2, Inl e2) \<Rightarrow> (self2, tr0 @ tr1 @ tr2, Propagated e2)
                | (self2, tr2, Inr _) \<Rightarrow> (self2, tr0 @ tr1 @ tr2, Returned))
             else
               (case run_cleanup cleanup_start self1 of
                  (self2, tr2, Inl e2) \<Rightarrow> (self2, tr0 @ tr1 @ tr2, Propagated e2)
                | (self2, tr2, Inr _) \<Rightarrow> (self2, tr0 @ tr1 @ tr2, Propagated e)))))"

subsection \<open>Vocabulary for the properties\<close>

definition state_of :: "coordinator \<times> trace \<times> 'r \<Rightarrow> coordinator" where
  "state_of x = fst x"

definition trace_of :: "coordinator \<times> trace \<times> 'r \<Rightarrow> trace" where
  "trace_of x = fst (snd x)"

definition result_of :: "coordinator \<times> trace \<times> 'r \<Rightarrow> 'r" where
  "result_of x = snd (snd x)"

fun is_run :: "command \<Rightarrow> event \<Rightarrow> bool" where
  "is_run cmd (Run cmd' r) = (cmd = cmd')"
| "is_run cmd _ = False"

text \<open>The command was issued somewhere in the trace, whatever came of it.\<close>

definition issued :: "command \<Rightarrow> trace \<Rightarrow> bool" where
  "issued cmd tr = (\<exists>(self, ev) \<in> set tr. is_run cmd ev)"

text \<open>How many times the command was issued in the trace.\<close>

definition count_run :: "command \<Rightarrow> trace \<Rightarrow> nat" where
  "count_run cmd tr = length (filter (\<lambda>(self, ev). is_run cmd ev) tr)"




text \<open>Every clock value of a sequence of passes, in the order the values are taken.\<close>

fun clock_readings :: "tick_env list \<Rightarrow> real list" where
  "clock_readings [] = []"
| "clock_readings (env # envs) =
     time_classified env # time_detected env # time_checked env # clock_readings envs"

subsection \<open>Concrete processes and passes\<close>

definition rdb_build_proc :: proc where
  "rdb_build_proc =
     \<lparr>pid = 4242, name = Inr ''python'', cmdline = Inr [''python'', ''-m'', ''rdb'', ''--build'']\<rparr>"

definition sshd_proc :: proc where
  "sshd_proc = \<lparr>pid = 977, name = Inr ''sshd'', cmdline = Inr [''sshd:'', ''user@pts/0'']\<rparr>"

definition upper_rdb_proc :: proc where
  "upper_rdb_proc = \<lparr>pid = 5151, name = Inr ''RDB'', cmdline = Inr [''RDB'']\<rparr>"

text \<open>A job whose process is gone by the time its name is asked for.\<close>

definition vanished_proc :: proc where
  "vanished_proc = \<lparr>pid = 6001, name = Inl NoSuchProcess, cmdline = Inr [''rdb'']\<rparr>"

text \<open>
  A pass at clock value \<open>t\<close> during which the job \<open>rdb_build_proc\<close> runs, the service
  manager reports the service active and every command succeeds; and a pass during which
  only \<open>sshd\<close> runs.
\<close>

definition busy_env :: "real \<Rightarrow> tick_env" where
  "busy_env t =
     \<lparr>processes = [sshd_proc, rdb_build_proc],
      time_classified = t, time_detected = t, time_checked = t,
      is_active_in_run = Inr 0, is_active_in_stop = Inr 0,
      stop_result = Inr 0, start_result = Inr 0,
      poll_sleep = None, signal_received = False\<rparr>"

definition idle_env :: "real \<Rightarrow> tick_env" where
  "idle_env t = (busy_env t)\<lparr>processes := [sshd_proc]\<rparr>"

text \<open>
  A run in which the service is stopped nine seconds into a contention and a termination
  signal arrives three seconds later, while the job still runs.
\<close>

definition signalled_run :: "tick_env list" where
  "signalled_run = [busy_env 0, busy_env 9, (busy_env 12)\<lparr>signal_received := True\<rparr>]"

text \<open>A pass in which the only job is gone when its name is asked for.\<close>

definition vanishing_env :: tick_env where
  "vanishing_env = (busy_env 0)\<lparr>processes := [vanished_proc]\<rparr>"

text \<open>A pass whose closing \<^verbatim>\<open>time.sleep\<close> is interrupted by \<^verbatim>\<open>KeyboardInterrupt\<close>.\<close>

definition interrupted_env :: tick_env where
  "interrupted_env = (idle_env 0)\<lparr>poll_sleep := Some KeyboardInterrupt\<rparr>"

text \<open>
  The coordinator after it stopped the service for a contention that began at clock value
  0, and a pass in which the contention has cleared but \<^verbatim>\<open>systemctl start\<close> returns 1.
\<close>

definition suspended :: coordinator where
  "suspended = GPUCoordinator_init\<lparr>vllm_was_running := True, gpu_process_start_time := Some 0\<rparr>"

definition failing_resume_env :: tick_env where
  "failing_resume_env = (idle_env 12)\<lparr>start_result := Inr 1\<rparr>"


text \<open>
  A pass nine seconds into a contention in which \<^verbatim>\<open>sudo\<close> is not installed:
  \<^verbatim>\<open>subprocess.run\<close> raises \<^verbatim>\<open>FileNotFoundError\<close> instead of running the stop command.
\<close>

definition sudo_missing_env :: tick_env where
  "sudo_missing_env = (busy_env 9)\<lparr>stop_result := Inl OtherException\<rparr>"

text \<open>A job started as \<^verbatim>\<open>Python -m rdb\<close>, with a capital letter.\<close>

definition mixed_case_proc :: proc where
  "mixed_case_proc =
     \<lparr>pid = 7007, name = Inr ''Python'', cmdline = Inr [''Python'', ''-m'', ''rdb'']\<rparr>"

section \<open>Properties\<close>

lemmas action_defs = ret_def raise_def emit_def assign_def seq_def try_except_def
  logger_info_def logger_error_def subprocess_run_def time_sleep_def

subsection \<open>The classifier\<close>

lemma py_in_sublist: "py_in p c = sublist p c"
  by (induction c) (auto simp: sublist_Cons_right)

lemma benign_classify:
  assumes "\<forall>q \<in> set ps. \<forall>e. cmdline q = Inl e \<longrightarrow> e = NoSuchProcess \<or> e = AccessDenied"
  shows "get_gpu_intensive_processes self ps =
           Inr (filter (\<lambda>q. is_process_gpu_intensive self q = Inr True) ps)"
  using assms
  by (induction ps) (auto simp: is_process_gpu_intensive_def split: sum.splits)

lemma rdb_build: "py_in ''rdb'' ''python -m rdb --build''"
  by simp

lemma sshd_not_intensive:
  "gpu_intensive_processes self = gpu_intensive_processes GPUCoordinator_init \<Longrightarrow>
   \<not> cmdline_gpu_intensive self ''sshd: user@pts/0''"
  by (simp add: cmdline_gpu_intensive_def GPUCoordinator_init_def gpu_keywords_def
        lower_def lower_char_def)

lemma pattern_intensive:
  "pattern \<in> gpu_intensive_processes self \<Longrightarrow> py_in pattern c \<Longrightarrow> cmdline_gpu_intensive self c"
  unfolding cmdline_gpu_intensive_def by auto

text \<open>
  C5. A process whose command line is \<^verbatim>\<open>python -m rdb --build\<close> is in the classifier's
  result whenever the configured patterns contain \<^verbatim>\<open>rdb\<close> (here for any snapshot in
  which \<^verbatim>\<open>cmdline()\<close> fails, if it fails, with one of the two exceptions the script
  handles); and for a snapshot holding only a process with command line
  \<^verbatim>\<open>sshd: user@pts/0\<close> the result under the script's configuration is empty.
\<close>

theorem classifier_scenarios:
  "(''rdb'' \<in> gpu_intensive_processes self \<and> cmdline p = Inr argv \<and>
     join_space argv = ''python -m rdb --build'' \<and> p \<in> set ps \<and>
     (\<forall>q \<in> set ps. \<forall>e. cmdline q = Inl e \<longrightarrow> e = NoSuchProcess \<or> e = AccessDenied)
     \<longrightarrow> (\<exists>found. get_gpu_intensive_processes self ps = Inr found \<and> p \<in> set found))
   \<and> (gpu_intensive_processes self = gpu_intensive_processes GPUCoordinator_init \<and>
       cmdline p' = Inr argv' \<and> join_space argv' = ''sshd: user@pts/0''
     \<longrightarrow> get_gpu_intensive_processes self [p'] = Inr [])"
proof (intro conjI impI; elim conjE)
  assume pat: "''rdb'' \<in> gpu_intensive_processes self"
    and c: "cmdline p = Inr argv"
    and j: "join_space argv = ''python -m rdb --build''"
    and mem: "p \<in> set ps"
    and ok: "\<forall>q \<in> set ps. \<forall>e. cmdline q = Inl e \<longrightarrow> e = NoSuchProcess \<or> e = AccessDenied"
  have "cmdline_gpu_intensive self (join_space argv)"
    unfolding j by (rule pattern_intensive [OF pat rdb_build])
  then have "is_process_gpu_intensive self p = Inr True"
    by (simp only: is_process_gpu_intensive_def c sum.case)
  then have "p \<in> set (filter (\<lambda>q. is_process_gpu_intensive self q = Inr True) ps)"
    using mem by simp
  then show "\<exists>found. get_gpu_intensive_processes self ps = Inr found \<and> p \<in> set found"
    unfolding benign_classify [OF ok] by blast
next
  assume cfg: "gpu_intensive_processes self = gpu_intensive_processes GPUCoordinator_init"
    and c: "cmdline p' = Inr argv'"
    and j: "join_space argv' = ''sshd: user@pts/0''"
  have "\<not> cmdline_gpu_intensive self (join_space argv')"
    unfolding j by (rule sshd_not_intensive [OF cfg])
  then have "is_process_gpu_intensive self p' = Inr False"
    by (simp only: is_process_gpu_intensive_def c sum.case)
  then show "get_gpu_intensive_processes self [p'] = Inr []"
    by simp
qed

theorem classifier_scenarios_witness:
  "(\<exists>found. get_gpu_intensive_processes GPUCoordinator_init [sshd_proc, rdb_build_proc] = Inr found
      \<and> rdb_build_proc \<in> set found)
   \<and> get_gpu_intensive_processes GPUCoordinator_init [sshd_proc] = Inr []"
proof -
  have 1: "''rdb'' \<in> gpu_intensive_processes GPUCoordinator_init"
    by (simp add: GPUCoordinator_init_def)
  have 2: "cmdline rdb_build_proc = Inr [''python'', ''-m'', ''rdb'', ''--build'']"
    by (simp add: rdb_build_proc_def)
  have 3: "join_space [''python'', ''-m'', ''rdb'', ''--build''] = ''python -m rdb --build''"
    by simp
  have 4: "rdb_build_proc \<in> set [sshd_proc, rdb_build_proc]"
    by simp
  have 5: "\<forall>q \<in> set [sshd_proc, rdb_build_proc].
             \<forall>e. cmdline q = Inl e \<longrightarrow> e = NoSuchProcess \<or> e = AccessDenied"
    by (simp add: rdb_build_proc_def sshd_proc_def)
  have 6: "cmdline sshd_proc = Inr [''sshd:'', ''user@pts/0'']"
    by (simp add: sshd_proc_def)
  have 7: "join_space [''sshd:'', ''user@pts/0''] = ''sshd: user@pts/0''"
    by simp
  from classifier_scenarios [of GPUCoordinator_init rdb_build_proc
      "[''python'', ''-m'', ''rdb'', ''--build'']" "[sshd_proc, rdb_build_proc]"
      sshd_proc "[''sshd:'', ''user@pts/0'']"]
  show ?thesis using 1 2 3 4 5 6 7 by blast
qed

subsection \<open>The service controller, equation by equation\<close>

lemma is_vllm_running_eq:
  "is_vllm_running q self =
     (self, [(self, Run IsActive q)],
      if q = Inl KeyboardInterrupt then Inl KeyboardInterrupt else Inr (q = Inr 0))"
  by (cases q) (simp_all add: is_vllm_running_def action_defs)

lemma stop_vllm_eq:
  "stop_vllm q r self =
     (if q = Inl KeyboardInterrupt then (self, [(self, Run IsActive q)], Inl KeyboardInterrupt)
      else if q \<noteq> Inr 0 then (self, [(self, Run IsActive q)], Inr ())
      else
        (case r of
           Inr rc \<Rightarrow>
             if rc = 0 then
               (self\<lparr>vllm_was_running := True\<rparr>,
                [(self, Run IsActive q),
                 (self, Info (''Stopping '' @ vllm_service self @ '' for GPU-intensive process'')),
                 (self, Run Stop r),
                 (self\<lparr>vllm_was_running := True\<rparr>, Sleep 3)], Inr ())
             else
               (self,
                [(self, Run IsActive q),
                 (self, Info (''Stopping '' @ vllm_service self @ '' for GPU-intensive process'')),
                 (self, Run Stop r),
                 (self, Error (''Failed to stop '' @ vllm_service self))], Inr ())
         | Inl e \<Rightarrow>
             if e = CalledProcessError then
               (self,
                [(self, Run IsActive q),
                 (self, Info (''Stopping '' @ vllm_service self @ '' for GPU-intensive process'')),
                 (self, Run Stop r),
                 (self, Error (''Failed to stop '' @ vllm_service self))], Inr ())
             else
               (self,
                [(self, Run IsActive q),
                 (self, Info (''Stopping '' @ vllm_service self @ '' for GPU-intensive process'')),
                 (self, Run Stop r)], Inl e)))"
  unfolding stop_vllm_def
  by (cases r) (simp_all add: seq_def is_vllm_running_eq try_except_def logger_info_def
      logger_error_def emit_def subprocess_run_def raise_def ret_def assign_def time_sleep_def)

lemma start_vllm_eq:
  "start_vllm r self =
     (if \<not> vllm_was_running self then (self, [], Inr ())
      else
        (case r of
           Inr rc \<Rightarrow>
             if rc = 0 then
               (self\<lparr>vllm_was_running := False\<rparr>,
                [(self, Info (''Restarting '' @ vllm_service self)), (self, Run Start r)], Inr ())
             else
               (self,
                [(self, Info (''Restarting '' @ vllm_service self)), (self, Run Start r),
                 (self, Error (''Failed to start '' @ vllm_service self))], Inr ())
         | Inl e \<Rightarrow>
             if e = CalledProcessError then
               (self,
                [(self, Info (''Restarting '' @ vllm_service self)), (self, Run Start r),
                 (self, Error (''Failed to start '' @ vllm_service self))], Inr ())
             else
               (self,
                [(self, Info (''Restarting '' @ vllm_service self)), (self, Run Start r)],
                Inl e)))"
  unfolding start_vllm_def
  by (cases r) (simp_all add: seq_def try_except_def logger_info_def
      logger_error_def emit_def subprocess_run_def raise_def ret_def assign_def)

subsection \<open>The loop body, equation by equation\<close>

lemma run_gpu_detected_started:
  assumes "gpu_process_start_time self = Some started"
  shows "run_gpu_detected env ps self =
     (if time_checked env - started \<ge> grace_period self then
        (if is_active_in_run env = Inl KeyboardInterrupt then
           (self, [(self, Run IsActive (is_active_in_run env))], Inl KeyboardInterrupt)
         else if is_active_in_run env = Inr 0 then
           (case stop_vllm (is_active_in_stop env) (stop_result env) self of
              (self1, tr, r) \<Rightarrow> (self1, (self, Run IsActive (is_active_in_run env)) # tr, r))
         else (self, [(self, Run IsActive (is_active_in_run env))], Inr ()))
      else (self, [], Inr ()))"
  using assms
  by (simp add: run_gpu_detected_def seq_def ret_def is_vllm_running_eq split: prod.splits)

lemma run_gpu_detected_first:
  assumes "gpu_process_start_time self = None"
  shows "run_gpu_detected env ps self =
     (case proc_names ps of
        Inl e \<Rightarrow> (self\<lparr>gpu_process_start_time := Some (time_detected env)\<rparr>, [], Inl e)
      | Inr ns \<Rightarrow>
          (case run_gpu_detected env ps
                  (self\<lparr>gpu_process_start_time := Some (time_detected env)\<rparr>) of
             (self1, tr, r) \<Rightarrow>
               (self1,
                (self\<lparr>gpu_process_start_time := Some (time_detected env)\<rparr>,
                 Info (''GPU-intensive processes detected: '' @ concat ns)) # tr, r)))"
proof -
  let ?s1 = "self\<lparr>gpu_process_start_time := Some (time_detected env)\<rparr>"
  have t: "gpu_process_start_time ?s1 = Some (time_detected env)" by simp
  show ?thesis
    unfolding run_gpu_detected_started [OF t]
    using assms
    by (cases "proc_names ps")
       (simp_all add: run_gpu_detected_def seq_def ret_def raise_def assign_def logger_info_def
          emit_def is_vllm_running_eq split: prod.splits)
qed

lemma run_gpu_absent_eq:
  "run_gpu_absent env self =
     (if gpu_process_start_time self = None then (self, [], Inr ())
      else if \<not> vllm_was_running self then
        (self\<lparr>gpu_process_start_time := None\<rparr>,
         [(self, Info ''GPU-intensive processes finished'')], Inr ())
      else
        (case start_vllm (start_result env) (self\<lparr>gpu_process_start_time := None\<rparr>) of
           (self1, tr, r) \<Rightarrow>
             (self1,
              (self, Info ''GPU-intensive processes finished'') #
              (self\<lparr>gpu_process_start_time := None\<rparr>, Sleep 2) # tr, r)))"
  by (simp add: run_gpu_absent_def seq_def ret_def raise_def assign_def logger_info_def
          emit_def time_sleep_def split: prod.splits)

lemma run_tick_eq:
  "run_tick env self =
     (case get_gpu_intensive_processes self (processes env) of
        Inl e \<Rightarrow> (self, [], Inl e)
      | Inr gpu_processes \<Rightarrow>
          (case (if gpu_processes \<noteq> [] then run_gpu_detected env gpu_processes self
                 else run_gpu_absent env self) of
             (self1, tr1, Inl e) \<Rightarrow> (self1, tr1, Inl e)
           | (self1, tr1, Inr u) \<Rightarrow>
               (self1, tr1 @ [(self1, Sleep (check_interval self1))],
                case poll_sleep env of None \<Rightarrow> Inr () | Some e \<Rightarrow> Inl e)))"
  by (simp add: run_tick_def seq_def ret_def raise_def emit_def time_sleep_def
      split: sum.splits prod.splits option.splits)

lemma run_loop_step:
  assumes "running self"
  shows "run_loop (env # envs) self =
     (case run_tick env self of
        (self1, tr1, Inl e) \<Rightarrow> (self1, tr1, LoopRaised e)
      | (self1, tr1, Inr u) \<Rightarrow>
          (if signal_received env then
             (case run_loop envs (self1\<lparr>running := False\<rparr>) of
                (self2, tr2, r) \<Rightarrow>
                  (self2, tr1 @ (self1, Info ''Received signal, shutting down...'') # tr2, r))
           else
             (case run_loop envs self1 of (self2, tr2, r) \<Rightarrow> (self2, tr1 @ tr2, r))))"
  using assms
  by (simp add: handle_signal_def seq_def ret_def emit_def logger_info_def assign_def
      split: sum.splits prod.splits)


subsection \<open>Which fields a method touches\<close>

lemma stop_vllm_state:
  "state_of (stop_vllm q r self) =
     self\<lparr>vllm_was_running := vllm_was_running self \<or> (q = Inr 0 \<and> r = Inr 0)\<rparr>"
  by (cases r) (simp_all add: stop_vllm_eq state_of_def)

lemma start_vllm_state:
  "state_of (start_vllm r self) =
     self\<lparr>vllm_was_running := vllm_was_running self \<and> r \<noteq> Inr 0\<rparr>"
  by (cases r) (simp_all add: start_vllm_eq state_of_def)

lemma run_gpu_detected_started_fields:
  assumes "gpu_process_start_time s = Some t"
  shows "gpu_process_start_time (state_of (run_gpu_detected env ps s)) = Some t
       \<and> grace_period (state_of (run_gpu_detected env ps s)) = grace_period s
       \<and> gpu_intensive_processes (state_of (run_gpu_detected env ps s)) = gpu_intensive_processes s"
proof -
  obtain s1 tr r where st: "stop_vllm (is_active_in_stop env) (stop_result env) s = (s1, tr, r)"
    by (cases "stop_vllm (is_active_in_stop env) (stop_result env) s")
  have "s1 = s\<lparr>vllm_was_running := vllm_was_running s \<or>
               (is_active_in_stop env = Inr 0 \<and> stop_result env = Inr 0)\<rparr>"
    using stop_vllm_state [of "is_active_in_stop env" "stop_result env" s]
    by (simp add: st state_of_def)
  then show ?thesis
    unfolding run_gpu_detected_started [OF assms] state_of_def
    by (simp add: st assms)
qed

lemma run_gpu_detected_fields:
  "gpu_process_start_time (state_of (run_gpu_detected env ps self)) =
     Some (case gpu_process_start_time self of None \<Rightarrow> time_detected env | Some t \<Rightarrow> t)
   \<and> grace_period (state_of (run_gpu_detected env ps self)) = grace_period self
   \<and> gpu_intensive_processes (state_of (run_gpu_detected env ps self)) =
       gpu_intensive_processes self"
proof (cases "gpu_process_start_time self")
  case (Some t)
  then show ?thesis
    using run_gpu_detected_started_fields [OF Some, of env ps] by simp
next
  case None
  let ?s1 = "self\<lparr>gpu_process_start_time := Some (time_detected env)\<rparr>"
  have t: "gpu_process_start_time ?s1 = Some (time_detected env)" by simp
  obtain s2 tr r where st: "run_gpu_detected env ps ?s1 = (s2, tr, r)"
    by (cases "run_gpu_detected env ps ?s1")
  have "gpu_process_start_time s2 = Some (time_detected env)
      \<and> grace_period s2 = grace_period self
      \<and> gpu_intensive_processes s2 = gpu_intensive_processes self"
    using run_gpu_detected_started_fields [OF t, of env ps] by (simp add: st state_of_def)
  then show ?thesis
    unfolding run_gpu_detected_first [OF None] state_of_def
    by (simp add: None st split: sum.splits)
qed

lemma run_gpu_absent_fields:
  "gpu_process_start_time (state_of (run_gpu_absent env self)) = None
   \<and> grace_period (state_of (run_gpu_absent env self)) = grace_period self
   \<and> gpu_intensive_processes (state_of (run_gpu_absent env self)) = gpu_intensive_processes self"
proof -
  let ?s1 = "self\<lparr>gpu_process_start_time := None\<rparr>"
  obtain s2 tr r where st: "start_vllm (start_result env) ?s1 = (s2, tr, r)"
    by (cases "start_vllm (start_result env) ?s1")
  have "s2 = ?s1\<lparr>vllm_was_running := vllm_was_running ?s1 \<and> start_result env \<noteq> Inr 0\<rparr>"
    using start_vllm_state [of "start_result env" ?s1] by (simp add: st state_of_def)
  then show ?thesis
    unfolding run_gpu_absent_eq state_of_def
    by (simp add: st)
qed

lemma state_of_run_tick:
  "state_of (run_tick env self) =
     (case get_gpu_intensive_processes self (processes env) of
        Inl e \<Rightarrow> self
      | Inr ps \<Rightarrow>
          if ps \<noteq> [] then state_of (run_gpu_detected env ps self)
          else state_of (run_gpu_absent env self))"
  by (simp add: run_tick_eq state_of_def split: prod.splits sum.splits)

lemma run_tick_fields:
  "gpu_process_start_time (state_of (run_tick env self)) =
     (case get_gpu_intensive_processes self (processes env) of
        Inl e \<Rightarrow> gpu_process_start_time self
      | Inr ps \<Rightarrow>
          if ps \<noteq> [] then
            Some (case gpu_process_start_time self of None \<Rightarrow> time_detected env | Some t \<Rightarrow> t)
          else None)
   \<and> grace_period (state_of (run_tick env self)) = grace_period self
   \<and> gpu_intensive_processes (state_of (run_tick env self)) = gpu_intensive_processes self"
  unfolding state_of_run_tick
  using run_gpu_detected_fields [of env _ self] run_gpu_absent_fields [of env self]
  by (simp split: sum.splits)

subsection \<open>The contention timer\<close>

text \<open>
  C9. After every pass of the loop body that completes (does not raise), the contention
  start time \<open>gpu_process_start_time\<close> is set if and only if that pass's classification
  was non-empty. It is set to the clock value read at detection when it was not set
  before, kept when it was already set, and cleared by a pass whose classification is
  empty.
\<close>

theorem contention_timer_invariant:
  assumes "result_of (run_tick env self) = Inr u"
  shows "((gpu_process_start_time (state_of (run_tick env self)) \<noteq> None) =
            (\<exists>ps. get_gpu_intensive_processes self (processes env) = Inr ps \<and> ps \<noteq> []))
       \<and> ((\<exists>ps. get_gpu_intensive_processes self (processes env) = Inr ps \<and> ps \<noteq> []) \<longrightarrow>
            gpu_process_start_time (state_of (run_tick env self)) =
              Some (case gpu_process_start_time self of
                      None \<Rightarrow> time_detected env | Some t \<Rightarrow> t))
       \<and> (get_gpu_intensive_processes self (processes env) = Inr [] \<longrightarrow>
            gpu_process_start_time (state_of (run_tick env self)) = None)"
proof (cases "get_gpu_intensive_processes self (processes env)")
  case (Inl e)
  then have "result_of (run_tick env self) = Inl e"
    by (simp add: run_tick_eq result_of_def)
  with assms show ?thesis by simp
next
  case (Inr ps)
  have "gpu_process_start_time (state_of (run_tick env self)) =
          (if ps \<noteq> [] then
             Some (case gpu_process_start_time self of None \<Rightarrow> time_detected env | Some t \<Rightarrow> t)
           else None)"
    using run_tick_fields [of env self] by (simp add: Inr)
  then show ?thesis by (simp add: Inr)
qed

subsection \<open>Starting the service\<close>

text \<open>
  C7, as amended. \<^verbatim>\<open>_start_vllm\<close> issues the privileged start command exactly when
  \<open>vllm_was_running\<close> is true; called with the flag false it does nothing. (The claim
  says the command is issued unconditionally.)
\<close>

theorem start_is_guarded: "issued Start (trace_of (start_vllm r self)) = vllm_was_running self"
  by (cases r) (simp_all add: start_vllm_eq issued_def trace_of_def)

theorem start_is_guarded_witness:
  "issued Start (trace_of (start_vllm (Inr 0) (GPUCoordinator_init\<lparr>vllm_was_running := True\<rparr>)))"
  using start_is_guarded [of "Inr 0" "GPUCoordinator_init\<lparr>vllm_was_running := True\<rparr>"]
  by simp

text \<open>
  C7 as stated fails: called on the freshly initialised coordinator, whose flag is false,
  \<^verbatim>\<open>_start_vllm\<close> issues no start command, although the command would succeed.
\<close>

theorem start_not_unconditional:
  "\<not> issued Start (trace_of (start_vllm (Inr 0) GPUCoordinator_init))"
  by (simp add: start_vllm_eq issued_def trace_of_def GPUCoordinator_init_def)


subsection \<open>Evaluating concrete passes\<close>

lemma init_fields:
  "vllm_was_running GPUCoordinator_init = False"
  "gpu_process_start_time GPUCoordinator_init = None"
  "running GPUCoordinator_init = True"
  "grace_period GPUCoordinator_init = 8"
  "check_interval GPUCoordinator_init = 3"
  "vllm_service GPUCoordinator_init = ''vllm.service''"
  by (simp_all add: GPUCoordinator_init_def)

lemma job_intensive:
  assumes "gpu_intensive_processes self = gpu_intensive_processes GPUCoordinator_init"
  shows "is_process_gpu_intensive self rdb_build_proc = Inr True"
proof -
  have "''rdb'' \<in> gpu_intensive_processes self"
    unfolding assms by (simp add: GPUCoordinator_init_def)
  then have "cmdline_gpu_intensive self ''python -m rdb --build''"
    by (rule pattern_intensive [OF _ rdb_build])
  then show ?thesis
    by (simp add: is_process_gpu_intensive_def rdb_build_proc_def)
qed

lemma sshd_idle:
  assumes "gpu_intensive_processes self = gpu_intensive_processes GPUCoordinator_init"
  shows "is_process_gpu_intensive self sshd_proc = Inr False"
  using sshd_not_intensive [OF assms]
  by (simp add: is_process_gpu_intensive_def sshd_proc_def)

lemma classify_job:
  "gpu_intensive_processes self = gpu_intensive_processes GPUCoordinator_init \<Longrightarrow>
   get_gpu_intensive_processes self [sshd_proc, rdb_build_proc] = Inr [rdb_build_proc]"
  by (simp add: job_intensive sshd_idle)

lemma classify_sshd:
  "gpu_intensive_processes self = gpu_intensive_processes GPUCoordinator_init \<Longrightarrow>
   get_gpu_intensive_processes self [sshd_proc] = Inr []"
  by (simp add: sshd_idle)

lemma names_job: "proc_names [rdb_build_proc] = Inr [''python'']"
  by (simp add: rdb_build_proc_def)

lemma run_gpu_detected_eq:
  "run_gpu_detected env ps self =
     (case gpu_process_start_time self of
        None \<Rightarrow>
          (case proc_names ps of
             Inl e \<Rightarrow> (self\<lparr>gpu_process_start_time := Some (time_detected env)\<rparr>, [], Inl e)
           | Inr ns \<Rightarrow>
               (case run_gpu_detected env ps
                       (self\<lparr>gpu_process_start_time := Some (time_detected env)\<rparr>) of
                  (self1, tr, r) \<Rightarrow>
                    (self1,
                     (self\<lparr>gpu_process_start_time := Some (time_detected env)\<rparr>,
                      Info (''GPU-intensive processes detected: '' @ concat ns)) # tr, r)))
      | Some started \<Rightarrow>
          (if time_checked env - started \<ge> grace_period self then
             (if is_active_in_run env = Inl KeyboardInterrupt then
                (self, [(self, Run IsActive (is_active_in_run env))], Inl KeyboardInterrupt)
              else if is_active_in_run env = Inr 0 then
                (case stop_vllm (is_active_in_stop env) (stop_result env) self of
                   (self1, tr, r) \<Rightarrow> (self1, (self, Run IsActive (is_active_in_run env)) # tr, r))
              else (self, [(self, Run IsActive (is_active_in_run env))], Inr ()))
           else (self, [], Inr ())))"
proof (cases "gpu_process_start_time self")
  case None
  show ?thesis unfolding run_gpu_detected_first [OF None] by (simp add: None)
next
  case (Some started)
  show ?thesis unfolding run_gpu_detected_started [OF Some] by (simp add: Some)
qed

lemmas eval_simps = run_tick_eq run_gpu_detected_eq run_gpu_absent_eq stop_vllm_eq start_vllm_eq
  classify_job classify_sshd names_job init_fields busy_env_def idle_env_def
  state_of_def trace_of_def result_of_def

lemma run_loop_Cons:
  "run_loop (env # envs) self =
     (if running self then
        (case run_tick env self of
           (self1, tr1, Inl e) \<Rightarrow> (self1, tr1, LoopRaised e)
         | (self1, tr1, Inr u) \<Rightarrow>
             (if signal_received env then
                (case run_loop envs (self1\<lparr>running := False\<rparr>) of
                   (self2, tr2, r) \<Rightarrow>
                     (self2, tr1 @ (self1, Info ''Received signal, shutting down...'') # tr2, r))
              else
                (case run_loop envs self1 of (self2, tr2, r) \<Rightarrow> (self2, tr1 @ tr2, r))))
      else (self, [], LoopExited))"
proof (cases "running self")
  case True
  show ?thesis unfolding run_loop_step [OF True] by (simp add: True)
next
  case False
  then show ?thesis by simp
qed


lemmas eval_dels = get_gpu_intensive_processes.simps proc_names.simps run_loop.simps(2)

text \<open>The invariant at work: a first pass with the job present, a later pass without it.\<close>

theorem contention_timer_invariant_witness:
  "gpu_process_start_time (state_of (run_tick (busy_env 0) GPUCoordinator_init)) = Some 0
   \<and> gpu_process_start_time (state_of (run_tick (idle_env 3)
         (GPUCoordinator_init\<lparr>gpu_process_start_time := Some 0\<rparr>))) = None"
proof -
  have r1: "result_of (run_tick (busy_env 0) GPUCoordinator_init) = Inr ()"
    by (simp add: eval_simps del: eval_dels)
  have c1: "get_gpu_intensive_processes GPUCoordinator_init (processes (busy_env 0)) =
              Inr [rdb_build_proc]"
    by (simp add: eval_simps del: eval_dels)
  have r2: "result_of (run_tick (idle_env 3)
              (GPUCoordinator_init\<lparr>gpu_process_start_time := Some 0\<rparr>)) = Inr ()"
    by (simp add: eval_simps del: eval_dels)
  have c2: "get_gpu_intensive_processes (GPUCoordinator_init\<lparr>gpu_process_start_time := Some 0\<rparr>)
              (processes (idle_env 3)) = Inr []"
    by (simp add: eval_simps del: eval_dels)
  show ?thesis
    using contention_timer_invariant [OF r1] contention_timer_invariant [OF r2] c1 c2
    by (simp add: init_fields busy_env_def)
qed

lemma issued_simps:
  "issued cmd [] = False"
  "issued cmd ((s, ev) # tr) = (is_run cmd ev \<or> issued cmd tr)"
  "issued cmd (tr1 @ tr2) = (issued cmd tr1 \<or> issued cmd tr2)"
  by (auto simp: issued_def)


subsection \<open>Case sensitivity of the classifier\<close>

lemma py_in_trans: "py_in a b \<Longrightarrow> py_in b c \<Longrightarrow> py_in a c"
  unfolding py_in_sublist by (rule sublist_order.order_trans)

lemma py_in_lower: "py_in p c \<Longrightarrow> py_in (lower p) (lower c)"
  unfolding py_in_sublist lower_def by (rule map_mono_sublist)

lemma found_intensive:
  "get_gpu_intensive_processes self ps = Inr found \<Longrightarrow> q \<in> set found \<Longrightarrow>
   is_process_gpu_intensive self q = Inr True"
proof (induction ps arbitrary: found)
  case Nil
  then show ?case by simp
next
  case (Cons p ps)
  then show ?case
    by (auto split: sum.splits if_splits)
qed

lemma keyword_via_pattern:
  assumes "py_in pat c" and "lower pat = pat" and "py_in k pat"
  shows "py_in k (lower c)"
proof -
  have "py_in pat (lower c)" using py_in_lower [OF assms(1)] by (simp only: assms(2))
  with assms(3) show ?thesis by (rule py_in_trans)
qed

lemma keywordI:
  "k \<in> set gpu_keywords \<Longrightarrow> py_in k (lower c) \<Longrightarrow>
   P \<or> (\<exists>k \<in> set gpu_keywords. py_in k (lower c))"
  by blast

lemma configured_patterns_reduce:
  assumes cfg: "gpu_intensive_processes self = gpu_intensive_processes GPUCoordinator_init"
    and pat: "pat \<in> gpu_intensive_processes self" and m: "py_in pat c"
  shows "py_in ''rdb'' c \<or> (\<exists>k \<in> set gpu_keywords. py_in k (lower c))"
proof -
  have l: "lower ''embedding'' = ''embedding''" "lower ''indexing'' = ''indexing''"
    "lower ''trainer'' = ''trainer''" "lower ''finetune'' = ''finetune''"
    by (simp_all add: lower_def lower_char_def)
  have k: "''embed'' \<in> set gpu_keywords" "''index'' \<in> set gpu_keywords"
    "''train'' \<in> set gpu_keywords" "''finetune'' \<in> set gpu_keywords"
    by (simp_all add: gpu_keywords_def)
  have s: "py_in ''rdb'' ''python -m rdb''" "py_in ''embed'' ''embedding''"
    "py_in ''index'' ''indexing''" "py_in ''train'' ''trainer''" "py_in ''finetune'' ''finetune''"
    by simp_all
  from pat have "pat = ''rdb'' \<or> pat = ''python -m rdb'' \<or> pat = ''embedding'' \<or>
      pat = ''indexing'' \<or> pat = ''trainer'' \<or> pat = ''finetune''"
    unfolding cfg by (simp add: GPUCoordinator_init_def)
  then show ?thesis
  proof (elim disjE)
    assume a: "pat = ''rdb''"
    show ?thesis by (rule disjI1) (rule m [unfolded a])
  next
    assume b: "pat = ''python -m rdb''"
    show ?thesis by (rule disjI1) (rule py_in_trans [OF s(1) m [unfolded b]])
  next
    assume c: "pat = ''embedding''"
    show ?thesis by (rule keywordI [OF k(1) keyword_via_pattern [OF m [unfolded c] l(1) s(2)]])
  next
    assume d: "pat = ''indexing''"
    show ?thesis by (rule keywordI [OF k(2) keyword_via_pattern [OF m [unfolded d] l(2) s(3)]])
  next
    assume e: "pat = ''trainer''"
    show ?thesis by (rule keywordI [OF k(3) keyword_via_pattern [OF m [unfolded e] l(3) s(4)]])
  next
    assume f: "pat = ''finetune''"
    show ?thesis by (rule keywordI [OF k(4) keyword_via_pattern [OF m [unfolded f] l(4) s(5)]])
  qed
qed

text \<open>
  C10, as amended. Case asymmetry. A process whose command line contains no configured
  pattern as written (whether or not it contains one in another letter case, as \<^verbatim>\<open>RDB\<close>
  does for the pattern \<^verbatim>\<open>rdb\<close>) and none of the keyword stems once lowercased is left out
  of the classifier's result, whatever else the snapshot holds. Under the script's own
  patterns it is enough that \<^verbatim>\<open>rdb\<close> does not occur as written. A keyword stem matches
  in any letter case: a command line whose lowercased form contains a stem is classified.
  (The claim asks only that one configured pattern occurs in another letter case.)
\<close>

theorem case_asymmetry:
  "((\<forall>p \<in> gpu_intensive_processes self. \<not> py_in p c) \<and>
      (\<forall>k \<in> set gpu_keywords. \<not> py_in k (lower c)) \<and>
      cmdline q = Inr argv \<and> join_space argv = c
     \<longrightarrow> q \<notin> (case get_gpu_intensive_processes self ps of
                  Inr found \<Rightarrow> set found | Inl e \<Rightarrow> {}))
   \<and> (gpu_intensive_processes self = gpu_intensive_processes GPUCoordinator_init \<and>
      \<not> py_in ''rdb'' c' \<and> (\<forall>k \<in> set gpu_keywords. \<not> py_in k (lower c'))
     \<longrightarrow> \<not> cmdline_gpu_intensive self c')
   \<and> (k \<in> set gpu_keywords \<and> py_in k (lower c'') \<longrightarrow> cmdline_gpu_intensive self c'')"
proof -
  have one: "q \<notin> (case get_gpu_intensive_processes self ps of
                  Inr found \<Rightarrow> set found | Inl e \<Rightarrow> {})"
    if np: "\<forall>p \<in> gpu_intensive_processes self. \<not> py_in p c"
      and nk: "\<forall>k \<in> set gpu_keywords. \<not> py_in k (lower c)"
      and cq: "cmdline q = Inr argv" and j: "join_space argv = c"
  proof -
    have "\<not> cmdline_gpu_intensive self c"
      using np nk unfolding cmdline_gpu_intensive_def by simp
    then have "is_process_gpu_intensive self q = Inr False"
      by (simp add: is_process_gpu_intensive_def cq j)
    then show ?thesis
      using found_intensive [of self ps _ q] by (auto split: sum.splits)
  qed
  have two: "\<not> cmdline_gpu_intensive self c'"
    if cfg: "gpu_intensive_processes self = gpu_intensive_processes GPUCoordinator_init"
      and nr: "\<not> py_in ''rdb'' c'" and nk: "\<forall>k \<in> set gpu_keywords. \<not> py_in k (lower c')"
  proof -
    have "\<not> py_in p c'" if "p \<in> gpu_intensive_processes self" for p
      using configured_patterns_reduce [OF cfg that, of c'] nr nk by blast
    then show ?thesis
      using nk unfolding cmdline_gpu_intensive_def by simp
  qed
  have three: "cmdline_gpu_intensive self c''"
    if "k \<in> set gpu_keywords" "py_in k (lower c'')"
    using that unfolding cmdline_gpu_intensive_def by auto
  from one two three show ?thesis by blast
qed

text \<open>The command line \<^verbatim>\<open>RDB\<close> against the pattern \<^verbatim>\<open>rdb\<close>, and \<^verbatim>\<open>EMBED\<close> against the stem.\<close>

theorem case_asymmetry_witness:
  "py_in (lower ''rdb'') (lower ''RDB'')
   \<and> upper_rdb_proc \<notin> (case get_gpu_intensive_processes GPUCoordinator_init
                          [sshd_proc, upper_rdb_proc, rdb_build_proc] of
                        Inr found \<Rightarrow> set found | Inl e \<Rightarrow> {})
   \<and> \<not> cmdline_gpu_intensive GPUCoordinator_init ''RDB''
   \<and> cmdline_gpu_intensive GPUCoordinator_init ''python EMBED.py''"
proof -
  have 2: "py_in (lower ''rdb'') (lower ''RDB'')"
    by (simp add: lower_def lower_char_def)
  have 3: "\<forall>p \<in> gpu_intensive_processes GPUCoordinator_init. \<not> py_in p ''RDB''"
    by (simp add: GPUCoordinator_init_def)
  have 4: "\<forall>k \<in> set gpu_keywords. \<not> py_in k (lower ''RDB'')"
    by (simp add: gpu_keywords_def lower_def lower_char_def)
  have 5: "cmdline upper_rdb_proc = Inr [''RDB'']" "join_space [''RDB''] = ''RDB''"
    by (simp_all add: upper_rdb_proc_def)
  have 6: "\<not> py_in ''rdb'' ''RDB''"
    by simp
  have 7: "''embed'' \<in> set gpu_keywords" "py_in ''embed'' (lower ''python EMBED.py'')"
    by (simp_all add: gpu_keywords_def lower_def lower_char_def)
  show ?thesis
    using case_asymmetry [where self = GPUCoordinator_init and c = "''RDB''"
        and q = upper_rdb_proc and argv = "[''RDB'']"
        and ps = "[sshd_proc, upper_rdb_proc, rdb_build_proc]"
        and c' = "''RDB''" and k = "''embed''" and c'' = "''python EMBED.py''"]
      2 3 4 5 6 7
    by blast
qed

lemma mixed_case_line: "join_space [''Python'', ''-m'', ''rdb''] = ''Python -m rdb''"
  by simp

lemma mixed_case_classified:
  "get_gpu_intensive_processes GPUCoordinator_init [mixed_case_proc] = Inr [mixed_case_proc]"
proof -
  have "''rdb'' \<in> gpu_intensive_processes GPUCoordinator_init"
    by (simp add: GPUCoordinator_init_def)
  moreover have "py_in ''rdb'' ''Python -m rdb''" by simp
  ultimately have "cmdline_gpu_intensive GPUCoordinator_init ''Python -m rdb''"
    by (rule pattern_intensive)
  then have "is_process_gpu_intensive GPUCoordinator_init mixed_case_proc = Inr True"
    by (simp add: is_process_gpu_intensive_def mixed_case_proc_def)
  then show ?thesis by simp
qed

text \<open>
  C10 as stated fails: the command line \<^verbatim>\<open>Python -m rdb\<close> contains the configured pattern
  \<^verbatim>\<open>python -m rdb\<close> only in another letter case and none of the keyword stems once
  lowercased, yet the process is classified, because the pattern \<^verbatim>\<open>rdb\<close> occurs in it
  as written.
\<close>

theorem differing_case_pattern_still_classified:
  "''python -m rdb'' \<in> gpu_intensive_processes GPUCoordinator_init
   \<and> cmdline mixed_case_proc = Inr [''Python'', ''-m'', ''rdb'']
   \<and> join_space [''Python'', ''-m'', ''rdb''] = ''Python -m rdb''
   \<and> py_in (lower ''python -m rdb'') (lower ''Python -m rdb'')
   \<and> \<not> py_in ''python -m rdb'' ''Python -m rdb''
   \<and> \<not> py_in ''embed'' (lower ''Python -m rdb'')
   \<and> \<not> py_in ''index'' (lower ''Python -m rdb'')
   \<and> \<not> py_in ''build'' (lower ''Python -m rdb'')
   \<and> \<not> py_in ''train'' (lower ''Python -m rdb'')
   \<and> \<not> py_in ''finetune'' (lower ''Python -m rdb'')
   \<and> get_gpu_intensive_processes GPUCoordinator_init [mixed_case_proc] = Inr [mixed_case_proc]"
proof -
  have a: "''python -m rdb'' \<in> gpu_intensive_processes GPUCoordinator_init"
    by (simp add: GPUCoordinator_init_def)
  have b: "cmdline mixed_case_proc = Inr [''Python'', ''-m'', ''rdb'']"
    by (simp add: mixed_case_proc_def)
  have l: "lower ''python -m rdb'' = ''python -m rdb''" "lower ''Python -m rdb'' = ''python -m rdb''"
    by (simp_all add: lower_def lower_char_def)
  have c: "py_in (lower ''python -m rdb'') (lower ''Python -m rdb'')"
    unfolding l by simp
  have d: "\<not> py_in ''python -m rdb'' ''Python -m rdb''"
    by simp
  have e: "\<not> py_in ''embed'' (lower ''Python -m rdb'')"
    "\<not> py_in ''index'' (lower ''Python -m rdb'')"
    "\<not> py_in ''build'' (lower ''Python -m rdb'')"
    "\<not> py_in ''train'' (lower ''Python -m rdb'')"
    "\<not> py_in ''finetune'' (lower ''Python -m rdb'')"
    unfolding l by simp_all
  show ?thesis
    by (intro conjI a b mixed_case_line c d e mixed_case_classified)
qed

subsection \<open>The method run as a whole\<close>

lemma run_startup_eq:
  "run_startup self =
     (self,
      [(self, Info ''GPU Coordinator started''),
       (self, Info ''Monitoring for GPU processes''),
       (self, Info (''Managing service: '' @ vllm_service self))], Inr ())"
  by (simp add: run_startup_def seq_def logger_info_def emit_def)

lemma run_cleanup_eq:
  "run_cleanup r self =
     (if vllm_was_running self then
        (case start_vllm r self of
           (self1, tr, Inl e) \<Rightarrow>
             (self1, (self, Info ''Cleanup: restarting vLLM service'') # tr, Inl e)
         | (self1, tr, Inr u) \<Rightarrow>
             (self1,
              (self, Info ''Cleanup: restarting vLLM service'') # tr @
              [(self1, Info ''GPU Coordinator stopped'')], Inr ()))
      else (self, [(self, Info ''GPU Coordinator stopped'')], Inr ()))"
  by (simp add: run_cleanup_def seq_def logger_info_def emit_def ret_def
      split: prod.splits sum.splits)

lemma start_vllm_issues:
  "vllm_was_running self \<Longrightarrow> (self, Run Start r) \<in> set (trace_of (start_vllm r self))"
  by (cases r) (simp_all add: start_vllm_eq trace_of_def)

lemma cleanup_starts:
  assumes "vllm_was_running self"
  shows "(self, Run Start r) \<in> set (trace_of (run_cleanup r self))"
proof -
  obtain s1 tr res where st: "start_vllm r self = (s1, tr, res)"
    by (cases "start_vllm r self")
  have "(self, Run Start r) \<in> set tr"
    using start_vllm_issues [OF assms, of r] by (simp add: st trace_of_def)
  then show ?thesis
    by (cases res) (simp_all add: run_cleanup_eq assms st trace_of_def)
qed

lemma run_trace:
  assumes "result_of (run_loop envs self) \<noteq> LoopRunning"
  shows "trace_of (run envs c self) =
           trace_of (run_startup self) @ trace_of (run_loop envs self) @
           (if result_of (run_loop envs self) = LoopRaised KeyboardInterrupt
            then [(state_of (run_loop envs self), Info ''Interrupted by user'')] else []) @
           trace_of (run_cleanup c (state_of (run_loop envs self)))"
proof -
  obtain s1 tr1 res where l: "run_loop envs self = (s1, tr1, res)"
    by (cases "run_loop envs self")
  obtain s2 tr2 res2 where c: "run_cleanup c s1 = (s2, tr2, res2)"
    by (cases "run_cleanup c s1")
  from assms have nr: "res \<noteq> LoopRunning" by (simp add: l result_of_def)
  show ?thesis
  proof (cases res)
    case LoopRunning
    with nr show ?thesis by simp
  next
    case LoopExited
    show ?thesis
      by (cases res2)
         (simp_all add: run_def run_startup_eq l c LoopExited trace_of_def state_of_def
            result_of_def)
  next
    case (LoopRaised e)
    show ?thesis
    proof (cases "e = KeyboardInterrupt")
      case True
      show ?thesis
        by (cases res2)
           (simp_all add: run_def run_startup_eq l c LoopRaised True trace_of_def state_of_def
              result_of_def seq_def logger_info_def emit_def)
    next
      case False
      show ?thesis
        by (cases res2)
           (simp_all add: run_def run_startup_eq l c LoopRaised False trace_of_def state_of_def
              result_of_def)
    qed
  qed
qed

text \<open>
  C3. Resume owed at exit. Whenever the loop has ended (\<open>running\<close> found false at its
  head, or a pass raised \<^verbatim>\<open>KeyboardInterrupt\<close> or any other exception) with
  \<open>vllm_was_running\<close> true, the trace of \<^verbatim>\<open>run\<close> continues after the loop's own trace with
  a start command, issued in the state the loop ended in.
\<close>

theorem resume_owed_at_exit:
  assumes "result_of (run_loop envs self) \<noteq> LoopRunning"
    and "vllm_was_running (state_of (run_loop envs self))"
  shows "\<exists>before after.
           trace_of (run envs c self) = before @ trace_of (run_loop envs self) @ after \<and>
           (state_of (run_loop envs self), Run Start c) \<in> set after"
proof -
  let ?mid = "if result_of (run_loop envs self) = LoopRaised KeyboardInterrupt
              then [(state_of (run_loop envs self), Info ''Interrupted by user'')] else []"
  have t: "trace_of (run envs c self) =
             trace_of (run_startup self) @ trace_of (run_loop envs self) @
             (?mid @ trace_of (run_cleanup c (state_of (run_loop envs self))))"
    using run_trace [OF assms(1), of c] by simp
  have "(state_of (run_loop envs self), Run Start c) \<in>
          set (?mid @ trace_of (run_cleanup c (state_of (run_loop envs self))))"
    using cleanup_starts [OF assms(2), of c] by simp
  with t show ?thesis by blast
qed

lemma classify_vanished:
  "gpu_intensive_processes self = gpu_intensive_processes GPUCoordinator_init \<Longrightarrow>
   get_gpu_intensive_processes self [vanished_proc] = Inr [vanished_proc]"
proof -
  assume cfg: "gpu_intensive_processes self = gpu_intensive_processes GPUCoordinator_init"
  have "''rdb'' \<in> gpu_intensive_processes self"
    unfolding cfg by (simp add: GPUCoordinator_init_def)
  moreover have "py_in ''rdb'' ''rdb''" by simp
  ultimately have "cmdline_gpu_intensive self ''rdb''" by (rule pattern_intensive)
  then show ?thesis
    by (simp add: is_process_gpu_intensive_def vanished_proc_def)
qed

lemma names_vanished: "proc_names [vanished_proc] = Inl NoSuchProcess"
  by (simp add: vanished_proc_def)

lemmas run_simps = eval_simps run_loop_Cons run_def run_startup_eq run_cleanup_eq
  classify_vanished names_vanished signalled_run_def vanishing_env_def interrupted_env_def

text \<open>The service is stopped, then the signal arrives: the cleanup starts it again.\<close>

theorem resume_owed_at_exit_witness:
  "result_of (run_loop signalled_run GPUCoordinator_init) = LoopExited
   \<and> vllm_was_running (state_of (run_loop signalled_run GPUCoordinator_init))
   \<and> (\<exists>before after.
        trace_of (run signalled_run (Inr 0) GPUCoordinator_init) =
          before @ trace_of (run_loop signalled_run GPUCoordinator_init) @ after \<and>
        (state_of (run_loop signalled_run GPUCoordinator_init), Run Start (Inr 0)) \<in> set after)"
proof -
  have r: "result_of (run_loop signalled_run GPUCoordinator_init) = LoopExited"
    by (simp add: run_simps del: eval_dels)
  have f: "vllm_was_running (state_of (run_loop signalled_run GPUCoordinator_init))"
    by (simp add: run_simps del: eval_dels)
  have n: "result_of (run_loop signalled_run GPUCoordinator_init) \<noteq> LoopRunning"
    by (simp add: r)
  from resume_owed_at_exit [OF n f, of "Inr 0"] r f show ?thesis by blast
qed

subsection \<open>Exceptions in a pass\<close>





subsection \<open>A failed resume\<close>



lemmas more_simps = suspended_def failing_resume_env_def



subsection \<open>Stopping twice\<close>






lemma start_vllm_no_stop: "\<not> issued Stop (trace_of (start_vllm r self))"
  by (cases r) (simp_all add: start_vllm_eq trace_of_def issued_simps)

lemma run_gpu_absent_no_stop: "\<not> issued Stop (trace_of (run_gpu_absent env self))"
proof -
  obtain s2 tr res where st:
    "start_vllm (start_result env) (self\<lparr>gpu_process_start_time := None\<rparr>) = (s2, tr, res)"
    by (cases "start_vllm (start_result env) (self\<lparr>gpu_process_start_time := None\<rparr>)")
  have "\<not> issued Stop tr"
    using start_vllm_no_stop [of "start_result env" "self\<lparr>gpu_process_start_time := None\<rparr>"]
    by (simp add: st trace_of_def)
  then show ?thesis
    by (simp add: run_gpu_absent_eq st trace_of_def issued_simps)
qed












subsection \<open>The grace period\<close>

lemma classify_cong:
  assumes "gpu_intensive_processes s = gpu_intensive_processes s'"
  shows "get_gpu_intensive_processes s ps = get_gpu_intensive_processes s' ps"
proof -
  have "is_process_gpu_intensive s p = is_process_gpu_intensive s' p" for p
    by (simp add: is_process_gpu_intensive_def cmdline_gpu_intensive_def assms split: sum.splits)
  then show ?thesis
    by (induction ps) (simp_all split: sum.splits)
qed

lemma detected_young:
  assumes "gpu_process_start_time s = Some t0" and "time_checked env - t0 < grace_period s"
  shows "run_gpu_detected env ps s = (s, [], Inr ())"
  unfolding run_gpu_detected_started [OF assms(1)] using assms(2) by simp

lemma detected_no_stop_young:
  assumes "\<forall>t0. gpu_process_start_time s = Some t0 \<longrightarrow> lo \<le> t0"
    and "lo \<le> time_detected env" and "time_checked env - lo < grace_period s"
  shows "\<not> issued Stop (trace_of (run_gpu_detected env ps s))"
proof (cases "gpu_process_start_time s")
  case (Some t0)
  with assms have "time_checked env - t0 < grace_period s" by simp
  from detected_young [OF Some this] show ?thesis
    by (simp add: trace_of_def issued_simps)
next
  case None
  let ?s1 = "s\<lparr>gpu_process_start_time := Some (time_detected env)\<rparr>"
  have t: "gpu_process_start_time ?s1 = Some (time_detected env)" by simp
  have "time_checked env - time_detected env < grace_period ?s1"
    using assms(2,3) by simp
  from detected_young [OF t this] show ?thesis
    unfolding run_gpu_detected_first [OF None]
    by (simp add: trace_of_def issued_simps split: sum.splits)
qed

lemma tick_no_stop_young:
  assumes "\<forall>t0. gpu_process_start_time s = Some t0 \<longrightarrow> lo \<le> t0"
    and "get_gpu_intensive_processes s (processes env) = Inr [] \<or>
         (lo \<le> time_detected env \<and> time_checked env - lo < grace_period s)"
  shows "\<not> issued Stop (trace_of (run_tick env s))"
proof (cases "get_gpu_intensive_processes s (processes env)")
  case (Inl e)
  then show ?thesis by (simp add: run_tick_eq trace_of_def issued_simps)
next
  case (Inr ps)
  obtain s1 tr1 r1 where b:
    "(if ps \<noteq> [] then run_gpu_detected env ps s else run_gpu_absent env s) = (s1, tr1, r1)"
    by (cases "if ps \<noteq> [] then run_gpu_detected env ps s else run_gpu_absent env s")
  have "\<not> issued Stop
          (trace_of (if ps \<noteq> [] then run_gpu_detected env ps s else run_gpu_absent env s))"
  proof (cases "ps = []")
    case True
    then show ?thesis using run_gpu_absent_no_stop [of env s] by simp
  next
    case False
    with assms(2) Inr have "lo \<le> time_detected env" "time_checked env - lo < grace_period s"
      by simp_all
    from detected_no_stop_young [OF assms(1) this] False show ?thesis by simp
  qed
  then have "\<not> issued Stop tr1"
    by (simp only: b trace_of_def fst_conv snd_conv not_False_eq_True)
  then show ?thesis
    by (cases r1) (simp_all add: run_tick_eq Inr b trace_of_def issued_simps)
qed

lemma loop_no_stop_young:
  assumes "gpu_intensive_processes s = gpu_intensive_processes self0"
    and "grace_period s = G"
    and "\<forall>t0. gpu_process_start_time s = Some t0 \<longrightarrow> lo \<le> t0"
    and "\<forall>e \<in> set envs. get_gpu_intensive_processes self0 (processes e) = Inr [] \<or>
           (lo \<le> time_detected e \<and> time_checked e - lo < G)"
  shows "\<not> issued Stop (trace_of (run_loop envs s))"
  using assms
proof (induction envs arbitrary: s)
  case Nil
  show ?case by (simp add: trace_of_def issued_simps)
next
  case (Cons env envs)
  have cl: "get_gpu_intensive_processes s (processes env) =
            get_gpu_intensive_processes self0 (processes env)"
    by (rule classify_cong [OF Cons.prems(1)])
  have here: "get_gpu_intensive_processes s (processes env) = Inr [] \<or>
         (lo \<le> time_detected env \<and> time_checked env - lo < grace_period s)"
    using Cons.prems(4) by (simp add: cl Cons.prems(2))
  obtain s1 tr1 r1 where t: "run_tick env s = (s1, tr1, r1)"
    by (cases "run_tick env s")
  have n1: "\<not> issued Stop tr1"
    using tick_no_stop_young [OF Cons.prems(3) here] by (simp add: t trace_of_def)
  have fields: "gpu_intensive_processes s1 = gpu_intensive_processes self0"
    "grace_period s1 = G"
    using run_tick_fields [of env s] Cons.prems(1,2) by (simp_all add: t state_of_def)
  have timer: "\<forall>t0. gpu_process_start_time s1 = Some t0 \<longrightarrow> lo \<le> t0"
    using run_tick_fields [of env s] Cons.prems(3) here
    by (auto simp: t state_of_def split: sum.splits option.splits if_splits)
  let ?s2 = "if signal_received env then s1\<lparr>running := False\<rparr> else s1"
  obtain s3 tr3 r3 where l: "run_loop envs ?s2 = (s3, tr3, r3)"
    by (cases "run_loop envs ?s2")
  have "\<not> issued Stop (trace_of (run_loop envs ?s2))"
    by (rule Cons.IH) (use fields timer Cons.prems(4) in simp_all)
  then have n3: "\<not> issued Stop tr3"
    by (simp only: l trace_of_def fst_conv snd_conv not_False_eq_True)
  show ?case
    using n1 n3 l
    by (cases r1)
       (simp_all add: run_loop_Cons t trace_of_def issued_simps del: run_loop.simps
          split: if_splits)
qed

lemma clock_readings_append:
  "clock_readings (xs @ ys) = clock_readings xs @ clock_readings ys"
  by (induction xs) simp_all

lemma clock_readings_mem:
  "e \<in> set envs \<Longrightarrow>
   time_detected e \<in> set (clock_readings envs) \<and> time_checked e \<in> set (clock_readings envs)"
  by (induction envs) auto

text \<open>
  C4. Hysteresis. A contention episode begins with no contention timer set, consists of
  the passes \<open>env1\<close>, \<open>envs\<close> whose classification is non-empty, and ends with the pass
  \<open>env_end\<close> whose classification is empty. If the clock does not run backwards during
  the episode and the time from the first non-empty classification to the first empty one
  is shorter than the grace period, no stop command is issued in the episode.
\<close>

theorem hysteresis:
  assumes "gpu_process_start_time self = None"
    and "sorted (clock_readings (env1 # envs @ [env_end]))"
    and "\<forall>e \<in> set (env1 # envs).
           \<exists>p ps. get_gpu_intensive_processes self (processes e) = Inr (p # ps)"
    and "get_gpu_intensive_processes self (processes env_end) = Inr []"
    and "time_classified env_end - time_classified env1 < grace_period self"
  shows "\<not> issued Stop (trace_of (run_loop (env1 # envs @ [env_end]) self))"
proof -
  let ?lo = "time_classified env1"
  have split: "clock_readings (env1 # envs @ [env_end]) =
                 clock_readings (env1 # envs) @ clock_readings [env_end]"
    using clock_readings_append [of "env1 # envs" "[env_end]"] by simp
  have low: "?lo \<le> x" if "x \<in> set (clock_readings (env1 # envs))" for x
    using assms(2) that unfolding split by (auto simp: sorted_append)
  have high: "x \<le> time_classified env_end" if "x \<in> set (clock_readings (env1 # envs))" for x
    using assms(2) that unfolding split by (auto simp: sorted_append)
  have young: "?lo \<le> time_detected e \<and> time_checked e - ?lo < grace_period self"
    if "e \<in> set (env1 # envs)" for e
  proof -
    from clock_readings_mem [OF that]
    have "?lo \<le> time_detected e" "time_checked e \<le> time_classified env_end"
      using low high by blast+
    with assms(5) show ?thesis by simp
  qed
  have all: "\<forall>e \<in> set (env1 # envs @ [env_end]).
               get_gpu_intensive_processes self (processes e) = Inr [] \<or>
               (?lo \<le> time_detected e \<and> time_checked e - ?lo < grace_period self)"
    using young assms(4) by auto
  show ?thesis
    by (rule loop_no_stop_young [OF refl refl _ all]) (simp add: assms(1))
qed

text \<open>A job that runs for seven seconds against the grace period of eight.\<close>

theorem hysteresis_witness:
  "\<not> issued Stop
       (trace_of (run_loop (busy_env 0 # [busy_env 3, busy_env 6] @ [idle_env 7])
          GPUCoordinator_init))"
proof -
  have 1: "gpu_process_start_time GPUCoordinator_init = None"
    by (simp add: init_fields)
  have 2: "sorted (clock_readings (busy_env 0 # [busy_env 3, busy_env 6] @ [idle_env 7]))"
    by (simp add: busy_env_def idle_env_def)
  have 3: "\<forall>e \<in> set (busy_env 0 # [busy_env 3, busy_env 6]).
             \<exists>p ps. get_gpu_intensive_processes GPUCoordinator_init (processes e) = Inr (p # ps)"
    by (simp add: eval_simps del: eval_dels)
  have 4: "get_gpu_intensive_processes GPUCoordinator_init (processes (idle_env 7)) = Inr []"
    by (simp add: eval_simps del: eval_dels)
  have 5: "time_classified (idle_env 7) - time_classified (busy_env 0)
             < grace_period GPUCoordinator_init"
    by (simp add: busy_env_def idle_env_def init_fields)
  from hysteresis [OF 1 2 3 4 5] show ?thesis .
qed


subsection \<open>Counting commands, and how the loop goes on after a pass\<close>

lemma count_run_simps:
  "count_run cmd [] = 0"
  "count_run cmd ((s, ev) # tr) = (if is_run cmd ev then Suc (count_run cmd tr) else count_run cmd tr)"
  "count_run cmd (tr1 @ tr2) = count_run cmd tr1 + count_run cmd tr2"
  by (simp_all add: count_run_def)

lemma issued_count: "issued cmd tr = (0 < count_run cmd tr)"
  by (induction tr) (auto simp: issued_simps count_run_simps split: if_splits)

lemma run_loop_raised:
  assumes "running s" and "result_of (run_tick e s) = Inl x"
  shows "run_loop (e # es) s = (state_of (run_tick e s), trace_of (run_tick e s), LoopRaised x)"
proof -
  obtain s1 tr1 where t: "run_tick e s = (s1, tr1, Inl x)"
    using assms(2) by (cases "run_tick e s") (simp add: result_of_def)
  show ?thesis
    unfolding run_loop_step [OF assms(1)] by (simp add: t state_of_def trace_of_def)
qed

lemma run_loop_continues:
  assumes "running s" and "result_of (run_tick e s) = Inr u" and "\<not> signal_received e"
  shows "run_loop (e # es) s =
           (case run_loop es (state_of (run_tick e s)) of
              (s2, tr2, r) \<Rightarrow> (s2, trace_of (run_tick e s) @ tr2, r))"
proof -
  obtain s1 tr1 where t: "run_tick e s = (s1, tr1, Inr u)"
    using assms(2) by (cases "run_tick e s") (simp add: result_of_def)
  show ?thesis
    unfolding run_loop_step [OF assms(1)]
    by (simp add: t assms(3) state_of_def trace_of_def)
qed

lemma run_loop_trace_head:
  assumes "running s"
  shows "\<exists>rest. trace_of (run_loop (e # es) s) = trace_of (run_tick e s) @ rest"
proof -
  obtain s1 tr1 r1 where t: "run_tick e s = (s1, tr1, r1)"
    by (cases "run_tick e s")
  show ?thesis
    unfolding run_loop_step [OF assms]
    by (cases r1) (auto simp: t trace_of_def split: prod.splits)
qed

subsection \<open>A pass that stops the service\<close>

lemma stop_vllm_count:
  "count_run Stop (trace_of (stop_vllm (Inr 0) r s)) = 1"
  by (cases r) (simp_all add: stop_vllm_eq trace_of_def count_run_simps)

lemma stop_vllm_result:
  "result_of (stop_vllm (Inr 0) r s) =
     (case r of Inr rc \<Rightarrow> Inr () | Inl e \<Rightarrow> if e = CalledProcessError then Inr () else Inl e)"
  by (cases r) (simp_all add: stop_vllm_eq result_of_def)

lemma stopping_pass:
  assumes c: "get_gpu_intensive_processes s (processes env) = Inr (p # ps)"
    and t: "gpu_process_start_time s = Some started"
    and g: "grace_period s \<le> time_checked env - started"
    and q1: "is_active_in_run env = Inr 0" and q2: "is_active_in_stop env = Inr 0"
  shows "count_run Stop (trace_of (run_tick env s)) = 1"
    and "state_of (run_tick env s) = state_of (stop_vllm (Inr 0) (stop_result env) s)"
    and "result_of (run_tick env s) =
           (case result_of (stop_vllm (Inr 0) (stop_result env) s) of
              Inl e \<Rightarrow> Inl e
            | Inr u \<Rightarrow> (case poll_sleep env of None \<Rightarrow> Inr () | Some e \<Rightarrow> Inl e))"
proof -
  obtain s1 tr res where st: "stop_vllm (Inr 0) (stop_result env) s = (s1, tr, res)"
    by (cases "stop_vllm (Inr 0) (stop_result env) s")
  have n: "count_run Stop tr = 1"
    using stop_vllm_count [of "stop_result env" s] by (simp add: st trace_of_def)
  have d: "run_gpu_detected env (p # ps) s = (s1, (s, Run IsActive (Inr 0)) # tr, res)"
    unfolding run_gpu_detected_started [OF t] using g by (simp add: q1 q2 st)
  show "count_run Stop (trace_of (run_tick env s)) = 1"
    using n by (cases res) (simp_all add: run_tick_eq c d trace_of_def count_run_simps)
  show "state_of (run_tick env s) = state_of (stop_vllm (Inr 0) (stop_result env) s)"
    by (subst state_of_run_tick) (simp add: c d st state_of_def)
  show "result_of (run_tick env s) =
           (case result_of (stop_vllm (Inr 0) (stop_result env) s) of
              Inl e \<Rightarrow> Inl e
            | Inr u \<Rightarrow> (case poll_sleep env of None \<Rightarrow> Inr () | Some e \<Rightarrow> Inl e))"
    by (cases res) (simp_all add: run_tick_eq c d st result_of_def)
qed

subsection \<open>A failed stop\<close>

text \<open>
  C6, as amended. When the stop command fails (a non-zero return code, or the call
  raises), \<^verbatim>\<open>_stop_vllm\<close> leaves every field of the coordinator as it was; in particular
  \<open>vllm_was_running\<close> is not set and the contention timer is unchanged, and a pass in which
  the grace period has elapsed, the service is reported active and the stop fails ends in
  the state it began in, having issued the stop command once. When the failure is
  \<^verbatim>\<open>CalledProcessError\<close> (a non-zero return code), the pass completes and the next pass on
  which the contention persists and the service is reported active issues the stop
  command again. When \<^verbatim>\<open>subprocess.run\<close> raises anything else, the exception leaves the
  pass and ends the loop, so no later pass retries. (The claim says the stop is retried
  on a later tick after every failure.)
\<close>

theorem stop_failure_retry:
  "(r \<noteq> Inr 0 \<longrightarrow> state_of (stop_vllm q r self) = self)
   \<and> (running self \<and>
      stop_result env \<noteq> Inr 0 \<and>
      get_gpu_intensive_processes self (processes env) = Inr (p # ps) \<and>
      gpu_process_start_time self = Some started \<and>
      grace_period self \<le> time_checked env - started \<and>
      is_active_in_run env = Inr 0 \<and> is_active_in_stop env = Inr 0
      \<longrightarrow>
        state_of (run_tick env self) = self \<and>
        count_run Stop (trace_of (run_tick env self)) = 1 \<and>
        ((\<forall>e. stop_result env = Inl e \<longrightarrow> e = CalledProcessError) \<and>
         poll_sleep env = None \<and> \<not> signal_received env \<and>
         get_gpu_intensive_processes self (processes env') = Inr (p' # ps') \<and>
         grace_period self \<le> time_checked env' - started \<and>
         is_active_in_run env' = Inr 0 \<and> is_active_in_stop env' = Inr 0
         \<longrightarrow> 2 \<le> count_run Stop (trace_of (run_loop (env # env' # envs) self))) \<and>
        (\<forall>e. stop_result env = Inl e \<and> e \<noteq> CalledProcessError
         \<longrightarrow> run_loop (env # env' # envs) self =
               (self, trace_of (run_tick env self), LoopRaised e)))"
proof -
  have first: "state_of (stop_vllm q r self) = self" if "r \<noteq> Inr 0"
    using that by (simp add: stop_vllm_state)
  have second:
    "state_of (run_tick env self) = self \<and>
     count_run Stop (trace_of (run_tick env self)) = 1 \<and>
     ((\<forall>e. stop_result env = Inl e \<longrightarrow> e = CalledProcessError) \<and>
      poll_sleep env = None \<and> \<not> signal_received env \<and>
      get_gpu_intensive_processes self (processes env') = Inr (p' # ps') \<and>
      grace_period self \<le> time_checked env' - started \<and>
      is_active_in_run env' = Inr 0 \<and> is_active_in_stop env' = Inr 0
      \<longrightarrow> 2 \<le> count_run Stop (trace_of (run_loop (env # env' # envs) self))) \<and>
     (\<forall>e. stop_result env = Inl e \<and> e \<noteq> CalledProcessError
      \<longrightarrow> run_loop (env # env' # envs) self =
            (self, trace_of (run_tick env self), LoopRaised e))"
    if run: "running self" and f: "stop_result env \<noteq> Inr 0"
      and c: "get_gpu_intensive_processes self (processes env) = Inr (p # ps)"
      and t: "gpu_process_start_time self = Some started"
      and g: "grace_period self \<le> time_checked env - started"
      and q1: "is_active_in_run env = Inr 0" and q2: "is_active_in_stop env = Inr 0"
  proof -
    note pass = stopping_pass [OF c t g q1 q2]
    have state: "state_of (run_tick env self) = self"
      using pass(2) f by (simp add: stop_vllm_state)
    have retry: "2 \<le> count_run Stop (trace_of (run_loop (env # env' # envs) self))"
      if cpe: "\<forall>e. stop_result env = Inl e \<longrightarrow> e = CalledProcessError"
        and sl: "poll_sleep env = None" and sg: "\<not> signal_received env"
        and c': "get_gpu_intensive_processes self (processes env') = Inr (p' # ps')"
        and g': "grace_period self \<le> time_checked env' - started"
        and q1': "is_active_in_run env' = Inr 0" and q2': "is_active_in_stop env' = Inr 0"
    proof -
      have "result_of (run_tick env self) = Inr ()"
        using pass(3) cpe sl by (simp add: stop_vllm_result split: sum.splits)
      from run_loop_continues [OF run this sg, of "env' # envs"]
      have "trace_of (run_loop (env # env' # envs) self) =
              trace_of (run_tick env self) @ trace_of (run_loop (env' # envs) self)"
        by (simp add: state trace_of_def split: prod.splits)
      moreover obtain rest where
        "trace_of (run_loop (env' # envs) self) = trace_of (run_tick env' self) @ rest"
        using run_loop_trace_head [OF run, of env' envs] by blast
      moreover have "count_run Stop (trace_of (run_tick env' self)) = 1"
        by (rule stopping_pass(1) [OF c' t g' q1' q2'])
      ultimately show ?thesis
        using pass(1) by (simp add: count_run_simps)
    qed
    have ends: "run_loop (env # env' # envs) self =
                  (self, trace_of (run_tick env self), LoopRaised e)"
      if "stop_result env = Inl e" "e \<noteq> CalledProcessError" for e
    proof -
      have "result_of (run_tick env self) = Inl e"
        using pass(3) that by (simp add: stop_vllm_result)
      from run_loop_raised [OF run this, of "env' # envs"] show ?thesis
        by (simp add: state)
    qed
    from state pass(1) retry ends show ?thesis by blast
  qed
  from first second show ?thesis by blast
qed


lemmas rev_simps = run_simps more_simps sudo_missing_env_def count_run_simps

text \<open>\<^verbatim>\<open>systemctl stop\<close> returns 1 at clock value 9; the pass at 12 issues the stop again.\<close>

theorem stop_failure_retry_witness:
  "state_of (run_tick ((busy_env 9)\<lparr>stop_result := Inr 1\<rparr>)
      (GPUCoordinator_init\<lparr>gpu_process_start_time := Some 0\<rparr>))
     = GPUCoordinator_init\<lparr>gpu_process_start_time := Some 0\<rparr>
   \<and> 2 \<le> count_run Stop
         (trace_of (run_loop ((busy_env 9)\<lparr>stop_result := Inr 1\<rparr> # busy_env 12 # [])
            (GPUCoordinator_init\<lparr>gpu_process_start_time := Some 0\<rparr>)))"
proof -
  let ?s = "GPUCoordinator_init\<lparr>gpu_process_start_time := Some 0\<rparr>"
  let ?e = "(busy_env 9)\<lparr>stop_result := Inr 1\<rparr>"
  have h: "running ?s" "stop_result ?e \<noteq> Inr 0"
    "gpu_process_start_time ?s = Some 0"
    "grace_period ?s \<le> time_checked ?e - 0"
    "is_active_in_run ?e = Inr 0" "is_active_in_stop ?e = Inr 0"
    "\<forall>e. stop_result ?e = Inl e \<longrightarrow> e = CalledProcessError"
    "poll_sleep ?e = None" "\<not> signal_received ?e"
    "grace_period ?s \<le> time_checked (busy_env 12) - 0"
    "is_active_in_run (busy_env 12) = Inr 0" "is_active_in_stop (busy_env 12) = Inr 0"
    by (simp_all add: busy_env_def init_fields)
  have c: "get_gpu_intensive_processes ?s (processes ?e) = Inr (rdb_build_proc # [])"
    "get_gpu_intensive_processes ?s (processes (busy_env 12)) = Inr (rdb_build_proc # [])"
    by (simp_all add: eval_simps del: eval_dels)
  show ?thesis
    using stop_failure_retry [where r = "Inr 1" and q = "Inr 0" and self = ?s and env = ?e
        and p = rdb_build_proc and ps = "[]" and started = 0 and env' = "busy_env 12"
        and p' = rdb_build_proc and ps' = "[]" and envs = "[]"]
      h c
    by blast
qed

text \<open>
  C6 as stated fails: with \<^verbatim>\<open>sudo\<close> missing the stop fails, the fields are unchanged, but
  the exception ends the loop; the pass at clock value 12, on which the contention
  persists, never runs and the stop command is issued only once.
\<close>

theorem stop_not_retried_when_run_raises:
  "result_of (run_loop [sudo_missing_env, busy_env 12]
      (GPUCoordinator_init\<lparr>gpu_process_start_time := Some 0\<rparr>)) = LoopRaised OtherException
   \<and> count_run Stop (trace_of (run_loop [sudo_missing_env, busy_env 12]
        (GPUCoordinator_init\<lparr>gpu_process_start_time := Some 0\<rparr>))) = 1"
  by (simp add: rev_simps del: eval_dels)


subsection \<open>Retrying a failed resume\<close>










end
